theory Spec2Isabelle
  imports Complex_Main "HOL-Library.Multiset"
begin

section \<open>Weight computation from execution records\<close>

text \<open>
  The embedding of \<^verbatim>\<open>compute_ndt_and_Ci\<close> of
  \<^verbatim>\<open>parse_jobhistory_and_compute_weights.py\<close>.

  An entry is the tuple \<^verbatim>\<open>(node, start, finish, hdfs_bytes)\<close>; the three numbers are
  Python integers, hence \<open>int\<close>. Python's \<^verbatim>\<open>float\<close> values are read as the
  rational numbers they stand for and the float operations as the exact operations
  on \<open>rat\<close>: rounding, overflow to infinity and NaN are outside this model.

  A Python \<^verbatim>\<open>dict\<close> keeps its keys in insertion order and the source iterates over
  its dictionaries, so a dictionary is an association list in insertion order: storing
  under a key that is present replaces the value in place, storing under a new key
  appends.
\<close>

type_synonym entry = "string \<times> int \<times> int \<times> int"

type_synonym 'v dict = "(string \<times> 'v) list"

datatype py_error = ZeroDivisionError | TypeError | ValueError

fun dict_get :: "'v dict \<Rightarrow> string \<Rightarrow> 'v \<Rightarrow> 'v" where
  "dict_get [] k dflt = dflt"
| "dict_get ((k', v') # d) k dflt = (if k' = k then v' else dict_get d k dflt)"

fun dict_set :: "'v dict \<Rightarrow> string \<Rightarrow> 'v \<Rightarrow> 'v dict" where
  "dict_set [] k v = [(k, v)]"
| "dict_set ((k', v') # d) k v = (if k' = k then (k', v) # d else (k', v') # dict_set d k v)"

text \<open>\<^verbatim>\<open>d[k] += x\<close> on a \<^verbatim>\<open>defaultdict\<close> whose default is zero.\<close>

definition dict_add :: "('v::zero) dict \<Rightarrow> string \<Rightarrow> ('v \<Rightarrow> 'v) \<Rightarrow> 'v dict" where
  "dict_add d k f = dict_set d k (f (dict_get d k 0))"

text \<open>
  Lines 65 to 71: the loop over the entries, with the two accumulators
  \<^verbatim>\<open>ndt_sum\<close> and \<^verbatim>\<open>ndt_count\<close>.
\<close>

fun accumulate :: "entry list \<Rightarrow> rat dict \<times> int dict \<Rightarrow> rat dict \<times> int dict" where
  "accumulate [] acc = acc"
| "accumulate ((node, start, finish, hdfs_bytes) # entries) (ndt_sum, ndt_count) =
     (if hdfs_bytes \<le> 0 \<or> finish \<le> start then accumulate entries (ndt_sum, ndt_count)
      else
        let texec = of_int (finish - start) / 1000;
            ndt = texec / of_int hdfs_bytes
        in accumulate entries
             (dict_add ndt_sum node (\<lambda>s. s + ndt), dict_add ndt_count node (\<lambda>c. c + 1)))"

text \<open>
  Lines 72 to 74: \<^verbatim>\<open>node_avg_ndt[node] = ndt_sum[node] / ndt_count[node]\<close> for every key
  of \<^verbatim>\<open>ndt_sum\<close>. The division raises \<^verbatim>\<open>ZeroDivisionError\<close> on a zero count.
\<close>

fun avg_loop :: "string list \<Rightarrow> rat dict \<Rightarrow> int dict \<Rightarrow> rat dict \<Rightarrow> py_error + rat dict" where
  "avg_loop [] ndt_sum ndt_count node_avg_ndt = Inr node_avg_ndt"
| "avg_loop (node # nodes) ndt_sum ndt_count node_avg_ndt =
     (if dict_get ndt_count node 0 = 0 then Inl ZeroDivisionError
      else avg_loop nodes ndt_sum ndt_count
             (dict_set node_avg_ndt node
                (dict_get ndt_sum node 0 / of_int (dict_get ndt_count node 0))))"

text \<open>Lines 76 to 81: \<^verbatim>\<open>Ci = 1 / avg(NDT)\<close>, and zero when the average is not positive.\<close>

definition capacities :: "rat dict \<Rightarrow> rat dict" where
  "capacities node_avg_ndt =
     fold (\<lambda>(node, avg_ndt) node_C.
             dict_set node_C node (if avg_ndt > 0 then 1 / avg_ndt else 0))
          node_avg_ndt []"

text \<open>Lines 83 to 91: \<^verbatim>\<open>Pi = Ci / sum(C)\<close>, or equal weights when the total is not positive.\<close>

definition weights :: "rat dict \<Rightarrow> rat dict" where
  "weights node_C =
     (let totalC = sum_list (map snd node_C) in
      if totalC > 0
      then fold (\<lambda>(node, c) node_P. dict_set node_P node (c / totalC)) node_C []
      else fold (\<lambda>(node, c) node_P.
                   dict_set node_P node
                     (if length node_C \<noteq> 0 then 1 / of_nat (length node_C) else 0))
                node_C [])"

definition compute_ndt_and_Ci :: "entry list \<Rightarrow> py_error + (rat dict \<times> rat dict)" where
  "compute_ndt_and_Ci entries =
     (case accumulate entries ([], []) of
        (ndt_sum, ndt_count) \<Rightarrow>
          (case avg_loop (map fst ndt_sum) ndt_sum ndt_count [] of
             Inl e \<Rightarrow> Inl e
           | Inr node_avg_ndt \<Rightarrow>
               let node_C = capacities node_avg_ndt;
                   node_P = weights node_C
               in Inr (node_C, node_P)))"

text \<open>The average per node that line 74 stores, for the claims that speak of it.\<close>

definition node_avg_ndt :: "entry list \<Rightarrow> py_error + rat dict" where
  "node_avg_ndt entries =
     (case accumulate entries ([], []) of
        (ndt_sum, ndt_count) \<Rightarrow> avg_loop (map fst ndt_sum) ndt_sum ndt_count [])"

text \<open>
  The words of the specification about one record, for the statements below: a record
  is valid when it is not skipped, its sample is its normalised delay time, and the
  samples of a node are those of its valid records, in input order.
\<close>

definition valid :: "entry \<Rightarrow> bool" where
  "valid e = (case e of (node, start, finish, hdfs_bytes) \<Rightarrow>
                \<not> (hdfs_bytes \<le> 0 \<or> finish \<le> start))"

definition ndt_of :: "entry \<Rightarrow> rat" where
  "ndt_of e = (case e of (node, start, finish, hdfs_bytes) \<Rightarrow>
                 (of_int (finish - start) / 1000) / of_int hdfs_bytes)"

definition samples :: "string \<Rightarrow> entry list \<Rightarrow> rat list" where
  "samples n entries = map ndt_of (filter (\<lambda>e. valid e \<and> fst e = n) entries)"

text \<open>
  The nodes with a valid record, in the order in which the loop first stores them, and
  the average and the capacity of a node written from its samples.
\<close>

definition observed :: "entry list \<Rightarrow> string list" where
  "observed entries = map fst (fst (accumulate entries ([], [])))"

definition avg_of :: "string \<Rightarrow> entry list \<Rightarrow> rat" where
  "avg_of n entries = sum_list (samples n entries) / of_nat (length (samples n entries))"

definition cap_of :: "string \<Rightarrow> entry list \<Rightarrow> rat" where
  "cap_of n entries = (if avg_of n entries > 0 then 1 / avg_of n entries else 0)"

section \<open>XML documents\<close>

text \<open>
  An element of \<^verbatim>\<open>xml.etree.ElementTree\<close>: its tag, its attributes, its text
  (\<^verbatim>\<open>None\<close> when the element has none) and its children in document order.
  \<^verbatim>\<open>find\<close>, \<^verbatim>\<open>findall\<close> and \<^verbatim>\<open>findtext\<close> with a plain tag look at the direct
  children only; the path \<^verbatim>\<open>.//tag\<close> ranges over all descendants in document order.
\<close>

datatype elem =
  Elem (tag: string) (attrib: "(string \<times> string) list") (etext: "string option")
       (children: "elem list")

definition with_children :: "elem \<Rightarrow> elem list \<Rightarrow> elem" where
  "with_children e cs = Elem (tag e) (attrib e) (etext e) cs"

definition set_text :: "string \<Rightarrow> elem \<Rightarrow> elem" where
  "set_text s e = Elem (tag e) (attrib e) (Some s) (children e)"

definition find_elem :: "elem \<Rightarrow> string \<Rightarrow> elem option" where
  "find_elem e t = List.find (\<lambda>c. tag c = t) (children e)"

definition findall :: "elem \<Rightarrow> string \<Rightarrow> elem list" where
  "findall e t = filter (\<lambda>c. tag c = t) (children e)"

definition findtext :: "elem \<Rightarrow> string \<Rightarrow> string option" where
  "findtext e t =
     (case find_elem e t of
        None \<Rightarrow> None
      | Some c \<Rightarrow> (case etext c of None \<Rightarrow> Some [] | Some s \<Rightarrow> Some s))"


fun descendants :: "elem \<Rightarrow> elem list" where
  "descendants (Elem t a x cs) = concat (map (\<lambda>c. c # descendants c) cs)"

definition findall_desc :: "elem \<Rightarrow> string \<Rightarrow> elem list" where
  "findall_desc e t = filter (\<lambda>c. tag c = t) (descendants e)"

section \<open>Record extraction\<close>

text \<open>
  The embedding of \<^verbatim>\<open>parse_history_xml\<close>, from the parsed root on (\<open>xroot\<close>
  below, as \<open>root\<close> is the root function of the library). Python's
  \<^verbatim>\<open>x or y\<close> yields \<^verbatim>\<open>x\<close> when it is truthy (a string that is not empty) and
  \<^verbatim>\<open>y\<close> otherwise. The builtin \<^verbatim>\<open>int\<close> is the parameter \<open>to_int\<close> on the strings
  that are not empty (\<^verbatim>\<open>ValueError\<close> where it gives nothing); on the empty string it
  raises \<^verbatim>\<open>ValueError\<close>, on \<^verbatim>\<open>None\<close> it raises \<^verbatim>\<open>TypeError\<close>, and on the
  integer \<^verbatim>\<open>0\<close> it returns it.
\<close>

definition truthy :: "string option \<Rightarrow> bool" where
  "truthy x = (case x of None \<Rightarrow> False | Some s \<Rightarrow> s \<noteq> [])"

definition py_or :: "string option \<Rightarrow> string option \<Rightarrow> string option" where
  "py_or x y = (if truthy x then x else y)"

definition py_int :: "(string \<Rightarrow> int option) \<Rightarrow> string option \<Rightarrow> py_error + int" where
  "py_int to_int x =
     (case x of
        None \<Rightarrow> Inl TypeError
      | Some s \<Rightarrow>
          if s = [] then Inl ValueError
          else (case to_int s of None \<Rightarrow> Inl ValueError | Some i \<Rightarrow> Inr i))"

text \<open>\<^verbatim>\<open>int(x or 0)\<close> and \<^verbatim>\<open>x or 'unknown'\<close>.\<close>

definition py_int_or_0 :: "(string \<Rightarrow> int option) \<Rightarrow> string option \<Rightarrow> py_error + int" where
  "py_int_or_0 to_int x = (if truthy x then py_int to_int x else Inr 0)"

definition py_str_or :: "string option \<Rightarrow> string \<Rightarrow> string" where
  "py_str_or x dflt = (case x of None \<Rightarrow> dflt | Some s \<Rightarrow> if s \<noteq> [] then s else dflt)"

text \<open>Lines 41 to 45: the body of the \<^verbatim>\<open>try\<close> for one \<^verbatim>\<open>taskAttempt\<close> element.\<close>

definition task_attempt_entry :: "(string \<Rightarrow> int option) \<Rightarrow> elem \<Rightarrow> py_error + entry" where
  "task_attempt_entry to_int t =
     (case py_int to_int (py_or (findtext t ''startTime'') (findtext t ''start'')) of
        Inl e \<Rightarrow> Inl e
      | Inr start \<Rightarrow>
     (case py_int to_int (py_or (findtext t ''finishTime'') (findtext t ''finish'')) of
        Inl e \<Rightarrow> Inl e
      | Inr finish \<Rightarrow>
     (case py_int_or_0 to_int
             (py_or (findtext t ''hdfsBytesRead'') (findtext t ''hdfs_bytes_read'')) of
        Inl e \<Rightarrow> Inl e
      | Inr hdfs_bytes \<Rightarrow>
          Inr (py_str_or (py_or (findtext t ''trackerName'') (findtext t ''node'')) ''unknown'',
               start, finish, hdfs_bytes))))"

text \<open>Lines 52 to 56: the body of the \<^verbatim>\<open>try\<close> for one \<^verbatim>\<open>map\<close> element.\<close>

definition map_entry :: "(string \<Rightarrow> int option) \<Rightarrow> elem \<Rightarrow> py_error + entry" where
  "map_entry to_int m =
     (case py_int_or_0 to_int (findtext m ''startTime'') of
        Inl e \<Rightarrow> Inl e
      | Inr start \<Rightarrow>
     (case py_int_or_0 to_int (findtext m ''finishTime'') of
        Inl e \<Rightarrow> Inl e
      | Inr finish \<Rightarrow>
     (case py_int_or_0 to_int (findtext m ''hdfsBytesRead'') of
        Inl e \<Rightarrow> Inl e
      | Inr hdfs_bytes \<Rightarrow>
          Inr (py_str_or (findtext m ''trackerName'') ''unknown'', start, finish, hdfs_bytes))))"

text \<open>
  A \<^verbatim>\<open>for\<close> loop whose body is \<^verbatim>\<open>try: ... results.append(...)\<close> with
  \<^verbatim>\<open>except Exception: continue\<close>.
\<close>

fun try_loop :: "(elem \<Rightarrow> py_error + entry) \<Rightarrow> elem list \<Rightarrow> entry list \<Rightarrow> entry list" where
  "try_loop body [] results = results"
| "try_loop body (t # ts) results =
     (case body t of
        Inl e \<Rightarrow> try_loop body ts results
      | Inr r \<Rightarrow> try_loop body ts (results @ [r]))"

definition parse_history_xml :: "(string \<Rightarrow> int option) \<Rightarrow> elem \<Rightarrow> entry list" where
  "parse_history_xml to_int xroot =
     (let results = try_loop (task_attempt_entry to_int) (findall_desc xroot ''taskAttempt'') []
      in if results = []
         then try_loop (map_entry to_int) (findall_desc xroot ''map'') results
         else results)"

text \<open>
  A plain decimal reading of a string, to run the extraction on concrete documents: an
  optional minus sign and at least one digit. It stands for \<^verbatim>\<open>int\<close> in the examples
  only.
\<close>

definition digit_val :: "char \<Rightarrow> nat option" where
  "digit_val c =
     (let n = (of_char c :: nat) in if 48 \<le> n \<and> n \<le> 57 then Some (n - 48) else None)"

fun dec_nat :: "string \<Rightarrow> nat \<Rightarrow> nat option" where
  "dec_nat [] acc = Some acc"
| "dec_nat (c # cs) acc =
     (case digit_val c of None \<Rightarrow> None | Some d \<Rightarrow> dec_nat cs (10 * acc + d))"

definition dec_int :: "string \<Rightarrow> int option" where
  "dec_int s =
     (case s of
        [] \<Rightarrow> None
      | c # cs \<Rightarrow>
          if c = CHR ''-''
          then (if cs = [] then None else map_option (\<lambda>n. - int n) (dec_nat cs 0))
          else map_option int (dec_nat s 0))"

text \<open>
  The extraction in the words of the specification: a field is read from the first of
  its aliases whose text is not empty; the records of a shape are those of its elements
  that can be coerced, in document order; the fallback shape is tried when the primary
  one gave no record. \<open>spec_map_entry\<close> reads a \<^verbatim>\<open>map\<close> element the way the source
  does, by the primary field names only; \<open>aliased_map_entry\<close> reads it with the
  aliases of the primary shape.
\<close>

fun first_alias :: "elem \<Rightarrow> string list \<Rightarrow> string option" where
  "first_alias e [] = None"
| "first_alias e (t # ts) =
     (case findtext e t of
        Some (c # cs) \<Rightarrow> Some (c # cs)
      | _ \<Rightarrow> first_alias e ts)"

definition coerce :: "(string \<Rightarrow> int option) \<Rightarrow> string option \<Rightarrow> int option" where
  "coerce to_int x = (case x of None \<Rightarrow> None | Some s \<Rightarrow> to_int s)"

definition coerce_default_0 :: "(string \<Rightarrow> int option) \<Rightarrow> string option \<Rightarrow> int option" where
  "coerce_default_0 to_int x = (case x of None \<Rightarrow> Some 0 | Some s \<Rightarrow> to_int s)"

definition spec_task_attempt_entry :: "(string \<Rightarrow> int option) \<Rightarrow> elem \<Rightarrow> entry option" where
  "spec_task_attempt_entry to_int t =
     (case coerce to_int (first_alias t [''startTime'', ''start'']) of
        None \<Rightarrow> None
      | Some start \<Rightarrow>
     (case coerce to_int (first_alias t [''finishTime'', ''finish'']) of
        None \<Rightarrow> None
      | Some finish \<Rightarrow>
     (case coerce_default_0 to_int (first_alias t [''hdfsBytesRead'', ''hdfs_bytes_read'']) of
        None \<Rightarrow> None
      | Some hdfs_bytes \<Rightarrow>
          Some (case first_alias t [''trackerName'', ''node''] of
                  None \<Rightarrow> ''unknown'' | Some s \<Rightarrow> s,
                start, finish, hdfs_bytes))))"

definition spec_map_entry :: "(string \<Rightarrow> int option) \<Rightarrow> elem \<Rightarrow> entry option" where
  "spec_map_entry to_int m =
     (case coerce_default_0 to_int (first_alias m [''startTime'']) of
        None \<Rightarrow> None
      | Some start \<Rightarrow>
     (case coerce_default_0 to_int (first_alias m [''finishTime'']) of
        None \<Rightarrow> None
      | Some finish \<Rightarrow>
     (case coerce_default_0 to_int (first_alias m [''hdfsBytesRead'']) of
        None \<Rightarrow> None
      | Some hdfs_bytes \<Rightarrow>
          Some (case first_alias m [''trackerName''] of
                  None \<Rightarrow> ''unknown'' | Some s \<Rightarrow> s,
                start, finish, hdfs_bytes))))"

definition aliased_map_entry :: "(string \<Rightarrow> int option) \<Rightarrow> elem \<Rightarrow> entry option" where
  "aliased_map_entry to_int m =
     (case coerce_default_0 to_int (first_alias m [''startTime'', ''start'']) of
        None \<Rightarrow> None
      | Some start \<Rightarrow>
     (case coerce_default_0 to_int (first_alias m [''finishTime'', ''finish'']) of
        None \<Rightarrow> None
      | Some finish \<Rightarrow>
     (case coerce_default_0 to_int (first_alias m [''hdfsBytesRead'', ''hdfs_bytes_read'']) of
        None \<Rightarrow> None
      | Some hdfs_bytes \<Rightarrow>
          Some (case first_alias m [''trackerName'', ''node''] of
                  None \<Rightarrow> ''unknown'' | Some s \<Rightarrow> s,
                start, finish, hdfs_bytes))))"

text \<open>What a \<^verbatim>\<open>try\<close> block yields when its exceptions are caught and dropped.\<close>

definition caught :: "'e + 'a \<Rightarrow> 'a option" where
  "caught r = (case r of Inl e \<Rightarrow> None | Inr x \<Rightarrow> Some x)"

definition two_tier ::
  "(elem \<Rightarrow> entry option) \<Rightarrow> (elem \<Rightarrow> entry option) \<Rightarrow> elem \<Rightarrow> entry list" where
  "two_tier primary fallback xroot =
     (let results = List.map_filter primary (findall_desc xroot ''taskAttempt'')
      in if results = [] then List.map_filter fallback (findall_desc xroot ''map'')
         else results)"

section \<open>Configuration property upsert\<close>

text \<open>
  The embedding of \<^verbatim>\<open>update_hdfs_site_property\<close> of \<^verbatim>\<open>anode_agent_apply.py\<close>.
  \<open>update_property\<close> is what the function does to the parsed tree between
  \<^verbatim>\<open>ET.parse\<close> and \<^verbatim>\<open>tree.write\<close>: the loop over \<^verbatim>\<open>root.findall('property')\<close>
  changes the first property whose first \<^verbatim>\<open>name\<close> child has the given text, in
  place, and returns; when the loop ends without a match a new property is appended
  to the root.
\<close>

fun update_first :: "('a \<Rightarrow> bool) \<Rightarrow> ('a \<Rightarrow> 'a) \<Rightarrow> 'a list \<Rightarrow> 'a list option" where
  "update_first P f [] = None"
| "update_first P f (x # xs) =
     (if P x then Some (f x # xs) else map_option ((#) x) (update_first P f xs))"

definition name_matches :: "string \<Rightarrow> elem \<Rightarrow> bool" where
  "name_matches prop_name prop =
     (case find_elem prop ''name'' of
        None \<Rightarrow> False
      | Some name \<Rightarrow> etext name = Some prop_name)"

text \<open>Lines 27 to 30: the first \<^verbatim>\<open>value\<close> child gets the text, a new one is appended.\<close>

definition set_value :: "string \<Rightarrow> elem \<Rightarrow> elem" where
  "set_value prop_value prop =
     (case update_first (\<lambda>c. tag c = ''value'') (set_text prop_value) (children prop) of
        None \<Rightarrow> with_children prop (children prop @ [Elem ''value'' [] (Some prop_value) []])
      | Some cs \<Rightarrow> with_children prop cs)"

definition new_property :: "string \<Rightarrow> string \<Rightarrow> elem" where
  "new_property prop_name prop_value =
     Elem ''property'' [] None
       [Elem ''name'' [] (Some prop_name) [], Elem ''value'' [] (Some prop_value) []]"

definition update_property :: "elem \<Rightarrow> string \<Rightarrow> string \<Rightarrow> elem" where
  "update_property xroot prop_name prop_value =
     (case update_first (\<lambda>c. tag c = ''property'' \<and> name_matches prop_name c)
             (set_value prop_value) (children xroot) of
        Some cs \<Rightarrow> with_children xroot cs
      | None \<Rightarrow> with_children xroot (children xroot @ [new_property prop_name prop_value]))"

text \<open>
  The properties of a document that carry a given name, as the upsert sees them, and
  the value of a property: the text of its first \<^verbatim>\<open>value\<close> child.
\<close>

definition properties_named :: "string \<Rightarrow> elem \<Rightarrow> elem list" where
  "properties_named k doc = filter (name_matches k) (findall doc ''property'')"

definition others :: "string \<Rightarrow> elem \<Rightarrow> elem list" where
  "others k doc = filter (\<lambda>c. \<not> (tag c = ''property'' \<and> name_matches k c)) (children doc)"

definition value_of :: "elem \<Rightarrow> string option" where
  "value_of prop = (case find_elem prop ''value'' of None \<Rightarrow> None | Some v \<Rightarrow> etext v)"

section \<open>Deployment sequence\<close>

text \<open>
  The embedding of \<^verbatim>\<open>main\<close> of \<^verbatim>\<open>anode_agent_apply.py\<close> and of the three
  functions it calls. The world holds what the run reads and changes:
  \<^item> \<open>files\<close>: the local files that parse as XML, by path (\<^verbatim>\<open>ET.parse\<close> raises on
    any other path); a tree written to a path is the tree parsed from it afterwards;
  \<^item> \<open>status\<close>: the exit status of the external commands, by the order in which they are
    run (\<^verbatim>\<open>subprocess.check_call\<close> raises \<^verbatim>\<open>CalledProcessError\<close> on a status that
    is not zero);
  \<^item> \<open>write_ok\<close>: whether a write to a file succeeds, by the order of the writes (a
    write that fails raises and leaves the file as it was);
  \<^item> \<open>calls\<close>, \<open>writes\<close>, \<open>stdout\<close>: the commands run, the number of writes
    attempted and the lines printed so far.
  An operation returns its result or the exception it raises, and the world after it.
\<close>

datatype exn = CalledProcessError "string list" int | ParseError string | WriteError string

datatype out_line = Reconfig_triggered | Reconfig_failed exn

record world =
  files :: "string \<Rightarrow> elem option"
  status :: "nat \<Rightarrow> int"
  write_ok :: "nat \<Rightarrow> bool"
  calls :: "string list list"
  writes :: nat
  stdout :: "out_line list"



definition ET_parse :: "string \<Rightarrow> world \<Rightarrow> (exn + elem) \<times> world" where
  "ET_parse path w =
     (case files w path of
        None \<Rightarrow> (Inl (ParseError path), w)
      | Some xroot \<Rightarrow> (Inr xroot, w))"

definition tree_write :: "string \<Rightarrow> elem \<Rightarrow> world \<Rightarrow> (exn + unit) \<times> world" where
  "tree_write path xroot w =
     (if write_ok w (writes w)
      then (Inr (), w\<lparr>files := (files w)(path := Some xroot), writes := writes w + 1\<rparr>)
      else (Inl (WriteError path), w\<lparr>writes := writes w + 1\<rparr>))"


definition update_hdfs_site_property ::
  "string \<Rightarrow> string \<Rightarrow> string \<Rightarrow> world \<Rightarrow> (exn + unit) \<times> world" where
  "update_hdfs_site_property hdfs_site_path prop_name prop_value w =
     (case ET_parse hdfs_site_path w of
        (Inl e, w1) \<Rightarrow> (Inl e, w1)
      | (Inr xroot, w1) \<Rightarrow>
          tree_write hdfs_site_path (update_property xroot prop_name prop_value) w1)"









section \<open>Properties of the weight computation\<close>

subsection \<open>Dictionaries and the accumulation loop\<close>

lemma dict_get_set: "dict_get (dict_set d k v) k' dflt = (if k' = k then v else dict_get d k' dflt)"
  by (induction d) auto

lemma keys_dict_set:
  "map fst (dict_set d k v) = (if k \<in> set (map fst d) then map fst d else map fst d @ [k])"
  by (induction d) (auto simp: rev_image_eqI)

lemma accumulate_Cons:
  "accumulate (e # es) (S, K) =
     (if valid e
      then accumulate es (dict_add S (fst e) (\<lambda>s. s + ndt_of e), dict_add K (fst e) (\<lambda>c. c + 1))
      else accumulate es (S, K))"
  by (cases e) (simp add: valid_def ndt_of_def Let_def)

lemma samples_Nil: "samples n [] = []"
  by (simp add: samples_def)

lemma samples_Cons:
  "samples n (e # es) = (if valid e \<and> fst e = n then ndt_of e # samples n es else samples n es)"
  by (simp add: samples_def)


lemma dict_set_fresh: "k \<notin> set (map fst d) \<Longrightarrow> dict_set d k v = d @ [(k, v)]"
  by (induction d) auto

lemma distinct_dict_set: "distinct (map fst d) \<Longrightarrow> distinct (map fst (dict_set d k v))"
  by (simp add: keys_dict_set)

lemma fold_dict_set:
  "distinct (map fst d) \<Longrightarrow> set (map fst acc) \<inter> set (map fst d) = {} \<Longrightarrow>
   fold (\<lambda>(k, v) a. dict_set a k (f k v)) d acc = acc @ map (\<lambda>(k, v). (k, f k v)) d"
proof (induction d arbitrary: acc)
  case Nil
  then show ?case by simp
next
  case (Cons kv d)
  obtain k v where kv: "kv = (k, v)" by (cases kv)
  from Cons.prems have fresh: "k \<notin> set (map fst acc)" and d: "distinct (map fst d)"
    and kd: "k \<notin> set (map fst d)" and disj: "set (map fst acc) \<inter> set (map fst d) = {}"
    by (auto simp: kv)
  have "set (map fst (acc @ [(k, f k v)])) \<inter> set (map fst d) = {}"
    using disj kd by auto
  from Cons.IH [OF d this] show ?case
    by (simp add: kv dict_set_fresh [OF fresh])
qed

lemma keys_accumulate_sync:
  "map fst S = map fst K \<Longrightarrow>
   map fst (fst (accumulate es (S, K))) = map fst (snd (accumulate es (S, K)))"
proof (induction es arbitrary: S K)
  case Nil
  then show ?case by simp
next
  case (Cons e es)
  then show ?case
    by (simp add: accumulate_Cons dict_add_def keys_dict_set)
qed

lemma distinct_accumulate:
  "distinct (map fst S) \<Longrightarrow> distinct (map fst (fst (accumulate es (S, K))))"
proof (induction es arbitrary: S K)
  case Nil
  then show ?case by simp
next
  case (Cons e es)
  then show ?case
    by (simp add: accumulate_Cons dict_add_def distinct_dict_set)
qed

lemma sum_accumulate:
  "dict_get (fst (accumulate es (S, K))) n 0 = dict_get S n 0 + sum_list (samples n es)"
proof (induction es arbitrary: S K)
  case Nil
  then show ?case by (simp add: samples_Nil)
next
  case (Cons e es)
  then show ?case
    by (simp add: accumulate_Cons dict_add_def dict_get_set samples_Cons)
qed

lemma count_accumulate:
  "dict_get (snd (accumulate es (S, K))) n 0 = dict_get K n 0 + int (length (samples n es))"
proof (induction es arbitrary: S K)
  case Nil
  then show ?case by (simp add: samples_Nil)
next
  case (Cons e es)
  then show ?case
    by (simp add: accumulate_Cons dict_add_def dict_get_set samples_Cons)
qed

lemma keys_accumulate:
  "set (map fst (fst (accumulate es (S, K)))) = set (map fst S) \<union> {n. samples n es \<noteq> []}"
proof (induction es arbitrary: S K)
  case Nil
  then show ?case by (simp add: samples_Nil)
next
  case (Cons e es)
  show ?case
  proof (cases "valid e")
    case True
    have "set (map fst (dict_add S (fst e) (\<lambda>s. s + ndt_of e))) = insert (fst e) (set (map fst S))"
      by (auto simp: dict_add_def keys_dict_set)
    moreover have "{n. samples n (e # es) \<noteq> []} = insert (fst e) {n. samples n es \<noteq> []}"
      using True by (auto simp: samples_Cons)
    ultimately show ?thesis
      using True by (simp only: accumulate_Cons if_True Cons.IH) auto
  next
    case False
    then show ?thesis using Cons.IH [of S K] by (simp add: accumulate_Cons samples_Cons)
  qed
qed

lemma avg_loop_ok:
  "distinct ns \<Longrightarrow> set ns \<inter> set (map fst acc) = {} \<Longrightarrow>
   (\<And>n. n \<in> set ns \<Longrightarrow> dict_get K n 0 \<noteq> 0) \<Longrightarrow>
   avg_loop ns S K acc =
     Inr (acc @ map (\<lambda>n. (n, dict_get S n 0 / of_int (dict_get K n 0))) ns)"
proof (induction ns arbitrary: acc)
  case Nil
  then show ?case by simp
next
  case (Cons n ns)
  from Cons.prems have fresh: "n \<notin> set (map fst acc)" by auto
  have "set ns \<inter> set (map fst (acc @ [(n, dict_get S n 0 / of_int (dict_get K n 0))])) = {}"
    using Cons.prems by auto
  moreover have "distinct ns" using Cons.prems by simp
  ultimately have
    "avg_loop ns S K (acc @ [(n, dict_get S n 0 / of_int (dict_get K n 0))]) =
       Inr ((acc @ [(n, dict_get S n 0 / of_int (dict_get K n 0))]) @
            map (\<lambda>n. (n, dict_get S n 0 / of_int (dict_get K n 0))) ns)"
    using Cons.prems(3) by (intro Cons.IH) auto
  then show ?case
    using Cons.prems(3) [of n] by (simp add: dict_set_fresh [OF fresh])
qed

lemma capacities_map:
  "distinct (map fst d) \<Longrightarrow>
   capacities d = map (\<lambda>(n, a). (n, if a > 0 then 1 / a else 0)) d"
  unfolding capacities_def
  using fold_dict_set [of d "[]" "\<lambda>n a. if a > 0 then 1 / a else 0"] by simp

lemma weights_map:
  assumes "distinct (map fst c)"
  shows "weights c =
     map (\<lambda>(n, x). (n, if sum_list (map snd c) > 0 then x / sum_list (map snd c)
                       else if length c \<noteq> 0 then 1 / of_nat (length c) else 0)) c"
proof -
  have A: "fold (\<lambda>(node, x) node_P. dict_set node_P node (g x)) c [] = map (\<lambda>(n, x). (n, g x)) c"
    for g :: "rat \<Rightarrow> rat"
    using fold_dict_set [OF assms, of "[]" "\<lambda>n. g"] by simp
  show ?thesis
    by (simp add: weights_def Let_def A)
qed

subsection \<open>The result of the computation\<close>

lemma observed_distinct: "distinct (observed es)"
  unfolding observed_def using distinct_accumulate [of "[]" es "[]"] by simp

lemma observed_set: "set (observed es) = {n. samples n es \<noteq> []}"
  unfolding observed_def using keys_accumulate [of es "[]" "[]"] by simp

lemma node_avg_ndt_char:
  "node_avg_ndt es = Inr (map (\<lambda>n. (n, avg_of n es)) (observed es))"
proof -
  obtain S K where acc: "accumulate es ([], []) = (S, K)" by (cases "accumulate es ([], [])")
  have S: "dict_get S n 0 = sum_list (samples n es)" for n
    using sum_accumulate [of es "[]" "[]" n] by (simp add: acc)
  have K: "dict_get K n 0 = int (length (samples n es))" for n
    using count_accumulate [of es "[]" "[]" n] by (simp add: acc)
  have obs: "observed es = map fst S" by (simp add: observed_def acc)
  have "avg_loop (map fst S) S K [] =
          Inr ([] @ map (\<lambda>n. (n, dict_get S n 0 / of_int (dict_get K n 0))) (map fst S))"
  proof (rule avg_loop_ok)
    show "distinct (map fst S)" using observed_distinct [of es] by (simp add: obs)
    show "set (map fst S) \<inter> set (map fst []) = {}" by simp
    fix n assume "n \<in> set (map fst S)"
    then have "samples n es \<noteq> []" using observed_set [of es] by (simp add: obs)
    then show "dict_get K n 0 \<noteq> 0" by (simp add: K)
  qed
  then show ?thesis
    by (simp add: node_avg_ndt_def acc obs S K avg_of_def)
qed

lemma compute_char:
  "compute_ndt_and_Ci es =
     Inr (map (\<lambda>n. (n, cap_of n es)) (observed es),
          weights (map (\<lambda>n. (n, cap_of n es)) (observed es)))"
proof -
  obtain S K where acc: "accumulate es ([], []) = (S, K)" by (cases "accumulate es ([], [])")
  have avg: "avg_loop (map fst S) S K [] = Inr (map (\<lambda>n. (n, avg_of n es)) (observed es))"
    using node_avg_ndt_char [of es] by (simp add: node_avg_ndt_def acc)
  have d: "distinct (map fst (map (\<lambda>n. (n, avg_of n es)) (observed es)))"
    using observed_distinct [of es] by (simp add: comp_def)
  show ?thesis
    by (simp add: compute_ndt_and_Ci_def acc avg Let_def capacities_map [OF d] cap_of_def comp_def)
qed






lemma keys_weights: "distinct (map fst c) \<Longrightarrow> map fst (weights c) = map fst c"
  by (simp add: weights_map comp_def case_prod_unfold)

lemma samples_empty_iff: "samples n es = [] \<longleftrightarrow> (\<forall>e\<in>set es. fst e = n \<longrightarrow> \<not> valid e)"
  by (auto simp: samples_def filter_empty_conv)

lemma observed_empty_iff: "observed es = [] \<longleftrightarrow> (\<forall>e\<in>set es. \<not> valid e)"
proof -
  have "observed es = [] \<longleftrightarrow> set (observed es) = {}" by simp
  also have "\<dots> \<longleftrightarrow> (\<forall>n. samples n es = [])" by (auto simp: observed_set)
  also have "\<dots> \<longleftrightarrow> (\<forall>e\<in>set es. \<not> valid e)" by (auto simp: samples_empty_iff)
  finally show ?thesis .
qed





lemma caps_distinct: "distinct (map fst (map (\<lambda>n. (n, cap_of n es)) (observed es)))"
  using observed_distinct [of es] by (simp add: comp_def)



subsection \<open>The claims about the weight computation\<close>

text \<open>
  Claim C4. On the records \<^verbatim>\<open>[("n1", 1000, 2000, 1000), ("n2", 1000, 3000, 1000)]\<close>
  the average delay per byte is 0.001 for n1 and 0.002 for n2, the capacities are 1000
  and 500, and the weights are 2/3 and 1/3, which sum to 1 and are 0.6667 and 0.3333 to
  four decimals.
\<close>

theorem scenario_two_nodes:
  "node_avg_ndt [(''n1'', 1000, 2000, 1000), (''n2'', 1000, 3000, 1000)] =
     Inr [(''n1'', 1 / 1000), (''n2'', 2 / 1000)] \<and>
   compute_ndt_and_Ci [(''n1'', 1000, 2000, 1000), (''n2'', 1000, 3000, 1000)] =
     Inr ([(''n1'', 1000), (''n2'', 500)], [(''n1'', 2 / 3), (''n2'', 1 / 3)]) \<and>
   sum_list (map snd [(''n1'', 2 / 3), (''n2'', 1 / 3 :: rat)]) = 1 \<and>
   \<bar>2 / 3 - 6667 / 10000\<bar> < (1 / 10000 :: rat) \<and>
   \<bar>1 / 3 - 3333 / 10000\<bar> < (1 / 10000 :: rat)"
  by (simp add: node_avg_ndt_def compute_ndt_and_Ci_def dict_add_def capacities_def
      weights_def)


text \<open>
  Claim C5. A node all of whose records are skipped is a key of neither dictionary
  returned; when every record has \<^verbatim>\<open>hdfs_bytes = 0\<close> both dictionaries are empty.
\<close>

theorem node_without_valid_record_absent:
  "(\<exists>C P. compute_ndt_and_Ci es = Inr (C, P) \<and>
      ((\<forall>(node, start, finish, hdfs_bytes)\<in>set es.
           node = n \<longrightarrow> hdfs_bytes \<le> 0 \<or> finish \<le> start) \<longrightarrow>
       n \<notin> fst ` set C \<and> n \<notin> fst ` set P)) \<and>
   ((\<forall>(node, start, finish, hdfs_bytes)\<in>set es. hdfs_bytes = 0) \<longrightarrow>
    compute_ndt_and_Ci es = Inr ([], []))"
proof -
  let ?C = "map (\<lambda>n. (n, cap_of n es)) (observed es)"
  have "map fst (weights ?C) = observed es"
    using keys_weights [OF caps_distinct, of es] by (simp add: comp_def)
  then have "set (map fst (weights ?C)) = set (observed es)" by simp
  then have keys: "fst ` set (weights ?C) = set (observed es)" by simp
  have a: "n \<notin> fst ` set ?C \<and> n \<notin> fst ` set (weights ?C)"
    if "\<forall>(node, start, finish, hdfs_bytes)\<in>set es. node = n \<longrightarrow> hdfs_bytes \<le> 0 \<or> finish \<le> start"
  proof -
    from that have "\<forall>e\<in>set es. fst e = n \<longrightarrow> \<not> valid e"
      by (auto simp: valid_def)
    then have "samples n es = []" by (simp add: samples_empty_iff)
    then have "n \<notin> set (observed es)" by (simp add: observed_set)
    then show ?thesis by (simp add: keys image_comp comp_def)
  qed
  have b: "compute_ndt_and_Ci es = Inr ([], [])"
    if "\<forall>(node, start, finish, hdfs_bytes)\<in>set es. hdfs_bytes = 0"
  proof -
    from that have "\<forall>e\<in>set es. \<not> valid e" by (auto simp: valid_def)
    then have "observed es = []" by (simp add: observed_empty_iff)
    then show ?thesis by (simp add: compute_char weights_def)
  qed
  have "\<exists>C P. compute_ndt_and_Ci es = Inr (C, P) \<and>
      ((\<forall>(node, start, finish, hdfs_bytes)\<in>set es.
           node = n \<longrightarrow> hdfs_bytes \<le> 0 \<or> finish \<le> start) \<longrightarrow>
       n \<notin> fst ` set C \<and> n \<notin> fst ` set P)"
    using a compute_char [of es] by blast
  with b show ?thesis by blast
qed

theorem node_without_valid_record_absent_witness:
  "(\<exists>C P. compute_ndt_and_Ci [(''n1'', 0, 1000, 10), (''n2'', 0, 1000, 0), (''n2'', 5, 5, 10)] =
            Inr (C, P) \<and>
          ''n2'' \<notin> fst ` set C \<and> ''n2'' \<notin> fst ` set P) \<and>
   compute_ndt_and_Ci [(''n1'', 0, 1000, 0), (''n2'', 5, 9, 0)] = Inr ([], [])"
proof -
  have h1: "\<forall>(node, start, finish, hdfs_bytes)
              \<in>set [(''n1'', 0, 1000, 10), (''n2'', 0, 1000, 0), (''n2'', 5, 5, 10 :: int)].
              node = ''n2'' \<longrightarrow> hdfs_bytes \<le> 0 \<or> finish \<le> (start :: int)"
    by simp
  have h2: "\<forall>(node, start, finish, hdfs_bytes)
              \<in>set [(''n1'', 0 :: int, 1000 :: int, 0), (''n2'', 5, 9, 0 :: int)]. hdfs_bytes = 0"
    by simp
  from h1 node_without_valid_record_absent
         [of "[(''n1'', 0, 1000, 10), (''n2'', 0, 1000, 0), (''n2'', 5, 5, 10)]" "''n2''"]
  have "\<exists>C P. compute_ndt_and_Ci [(''n1'', 0, 1000, 10), (''n2'', 0, 1000, 0), (''n2'', 5, 5, 10)] =
            Inr (C, P) \<and>
          ''n2'' \<notin> fst ` set C \<and> ''n2'' \<notin> fst ` set P"
    by blast
  moreover from h2 node_without_valid_record_absent
         [of "[(''n1'', 0, 1000, 0), (''n2'', 5, 9, 0)]" "''n2''"]
  have "compute_ndt_and_Ci [(''n1'', 0, 1000, 0), (''n2'', 5, 9, 0)] = Inr ([], [])"
    by blast
  ultimately show ?thesis by blast
qed





subsection \<open>Permuted input\<close>









section \<open>Properties of the configuration property upsert\<close>

lemma update_first_None: "update_first P f xs = None \<longleftrightarrow> (\<forall>x\<in>set xs. \<not> P x)"
  by (induction xs) auto

lemma update_first_Some:
  "update_first P f xs = Some ys \<Longrightarrow>
   \<exists>as x bs. xs = as @ x # bs \<and> (\<forall>a\<in>set as. \<not> P a) \<and> P x \<and> ys = as @ f x # bs"
proof (induction xs arbitrary: ys)
  case Nil
  then show ?case by simp
next
  case (Cons x xs)
  show ?case
  proof (cases "P x")
    case True
    with Cons.prems have "ys = f x # xs" by simp
    with True show ?thesis by (intro exI [of _ "[]"] exI [of _ x] exI [of _ xs]) simp
  next
    case False
    with Cons.prems obtain zs where zs: "update_first P f xs = Some zs" "ys = x # zs"
      by auto
    from Cons.IH [OF zs(1)] obtain as y bs where
      "xs = as @ y # bs" "\<forall>a\<in>set as. \<not> P a" "P y" "zs = as @ f y # bs" by blast
    with False zs(2) show ?thesis
      by (intro exI [of _ "x # as"] exI [of _ y] exI [of _ bs]) simp
  qed
qed

lemma find_skip: "\<not> P x \<Longrightarrow> \<not> P y \<Longrightarrow> List.find P (as @ x # bs) = List.find P (as @ y # bs)"
  by (induction as) auto

lemma find_append_not: "\<not> P y \<Longrightarrow> List.find P (cs @ [y]) = List.find P cs"
  by (induction cs) auto

lemma find_first: "\<forall>a\<in>set as. \<not> P a \<Longrightarrow> P x \<Longrightarrow> List.find P (as @ x # bs) = Some x"
  by (induction as) auto

lemma tag_set_value: "tag (set_value v p) = tag p"
  by (simp add: set_value_def with_children_def split: option.splits)

lemma attrib_set_value: "attrib (set_value v p) = attrib p"
  by (simp add: set_value_def with_children_def split: option.splits)

lemma etext_set_value: "etext (set_value v p) = etext p"
  by (simp add: set_value_def with_children_def split: option.splits)

lemma find_name_set_value: "find_elem (set_value v p) ''name'' = find_elem p ''name''"
proof (cases "update_first (\<lambda>c. tag c = ''value'') (set_text v) (children p)")
  case None
  then show ?thesis
    by (simp add: set_value_def with_children_def find_elem_def find_append_not)
next
  case (Some cs)
  from update_first_Some [OF Some] obtain as x bs where
    d: "children p = as @ x # bs" "tag x = ''value''" "cs = as @ set_text v x # bs" by blast
  have "List.find (\<lambda>c. tag c = ''name'') (as @ set_text v x # bs) =
        List.find (\<lambda>c. tag c = ''name'') (as @ x # bs)"
    by (rule find_skip) (simp_all add: d(2) set_text_def)
  moreover have "set_value v p = with_children p cs" by (simp add: set_value_def Some)
  ultimately show ?thesis
    by (simp add: with_children_def find_elem_def d)
qed

lemma name_matches_set_value: "name_matches k (set_value v p) = name_matches k p"
  by (simp add: name_matches_def find_name_set_value)

lemma value_of_set_value: "value_of (set_value v p) = Some v"
proof (cases "update_first (\<lambda>c. tag c = ''value'') (set_text v) (children p)")
  case None
  then have "\<forall>c\<in>set (children p). tag c \<noteq> ''value''" by (simp add: update_first_None)
  then have "List.find (\<lambda>c. tag c = ''value'') (children p @ [Elem ''value'' [] (Some v) []]) =
             Some (Elem ''value'' [] (Some v) [])"
    using find_first [of "children p" "\<lambda>c. tag c = ''value''" "Elem ''value'' [] (Some v) []" "[]"]
    by simp
  then show ?thesis
    by (simp add: value_of_def set_value_def None with_children_def find_elem_def)
next
  case (Some cs)
  from update_first_Some [OF Some] obtain as x bs where
    d: "children p = as @ x # bs" "\<forall>a\<in>set as. tag a \<noteq> ''value''" "tag x = ''value''"
       "cs = as @ set_text v x # bs" by blast
  have "List.find (\<lambda>c. tag c = ''value'') (as @ set_text v x # bs) = Some (set_text v x)"
    by (rule find_first) (simp_all add: d set_text_def)
  moreover have "set_value v p = with_children p cs" by (simp add: set_value_def Some)
  ultimately show ?thesis
    by (simp add: value_of_def with_children_def find_elem_def d(4) set_text_def)
qed

lemma new_property_facts:
  "tag (new_property k v) = ''property''" "name_matches k (new_property k v)"
  "value_of (new_property k v) = Some v"
  by (simp_all add: new_property_def name_matches_def value_of_def find_elem_def)

lemma properties_named_filter:
  "properties_named k doc = filter (\<lambda>c. tag c = ''property'' \<and> name_matches k c) (children doc)"
  by (auto simp: properties_named_def findall_def intro: filter_cong)

lemma update_property_root:
  "tag (update_property doc k v) = tag doc" "attrib (update_property doc k v) = attrib doc"
  "etext (update_property doc k v) = etext doc"
  by (simp_all add: update_property_def with_children_def split: option.splits)

lemma update_property_absent:
  assumes "properties_named k doc = []"
  shows "children (update_property doc k v) = children doc @ [new_property k v]"
proof -
  from assms have "\<forall>c\<in>set (children doc). \<not> (tag c = ''property'' \<and> name_matches k c)"
    by (simp add: properties_named_filter filter_empty_conv)
  then have "update_first (\<lambda>c. tag c = ''property'' \<and> name_matches k c) (set_value v) (children doc) = None"
    by (simp only: update_first_None)
  then show ?thesis by (simp add: update_property_def with_children_def)
qed

lemma update_property_shape:
  "\<exists>p. properties_named k (update_property doc k v) = p # tl (properties_named k doc) \<and>
       value_of p = Some v \<and> others k (update_property doc k v) = others k doc"
proof (cases "update_first (\<lambda>c. tag c = ''property'' \<and> name_matches k c) (set_value v) (children doc)")
  case None
  then have no: "\<forall>c\<in>set (children doc). \<not> (tag c = ''property'' \<and> name_matches k c)"
    by (simp only: update_first_None)
  then have e: "properties_named k doc = []"
    by (simp add: properties_named_filter filter_empty_conv)
  have c: "children (update_property doc k v) = children doc @ [new_property k v]"
    by (rule update_property_absent [OF e])
  have "properties_named k (update_property doc k v) = [new_property k v]"
    using e by (simp add: properties_named_filter c new_property_facts)
  moreover have "others k (update_property doc k v) = others k doc"
    by (simp add: others_def c new_property_facts)
  ultimately show ?thesis using e new_property_facts(3) [of k v] by simp
next
  case (Some cs)
  from update_first_Some [OF Some] obtain as x bs where
    d: "children doc = as @ x # bs"
       "\<forall>a\<in>set as. \<not> (tag a = ''property'' \<and> name_matches k a)"
       "tag x = ''property'' \<and> name_matches k x" "cs = as @ set_value v x # bs" by blast
  have c: "children (update_property doc k v) = as @ set_value v x # bs"
    by (simp add: update_property_def Some with_children_def d(4))
  have as: "filter (\<lambda>c. tag c = ''property'' \<and> name_matches k c) as = []"
    using d(2) by (simp add: filter_empty_conv)
  have k: "tag (set_value v x) = ''property'' \<and> name_matches k (set_value v x)"
    using d(3) by (simp add: tag_set_value name_matches_set_value)
  have 1: "properties_named k doc = x # filter (\<lambda>c. tag c = ''property'' \<and> name_matches k c) bs"
    using d(3) by (simp add: properties_named_filter d(1) as)
  have 2: "properties_named k (update_property doc k v) =
          set_value v x # filter (\<lambda>c. tag c = ''property'' \<and> name_matches k c) bs"
    using k by (simp add: properties_named_filter c as)
  have 3: "others k (update_property doc k v) = others k doc"
    using k d(3) by (simp add: others_def c d(1))
  from 1 2 3 value_of_set_value [of v x] show ?thesis by simp
qed

lemma update_property_count:
  "length (properties_named k (update_property doc k v)) = max 1 (length (properties_named k doc))"
proof -
  obtain p where "properties_named k (update_property doc k v) = p # tl (properties_named k doc)"
    using update_property_shape [of k doc v] by blast
  then show ?thesis by (cases "properties_named k doc") simp_all
qed

text \<open>
  Claim C6. On a document with no property named \<open>k\<close> the upsert appends one new
  property, with the name \<open>k\<close> and the value \<open>v\<close>, after all the children of the
  root: the children before it, the tag, the attributes and the text of the root are
  unchanged, and the number of properties grows by one.
\<close>

theorem upsert_appends_when_absent:
  assumes "properties_named k doc = []"
  shows "children (update_property doc k v) = children doc @ [new_property k v] \<and>
         tag (update_property doc k v) = tag doc \<and>
         attrib (update_property doc k v) = attrib doc \<and>
         etext (update_property doc k v) = etext doc \<and>
         tag (new_property k v) = ''property'' \<and>
         name_matches k (new_property k v) \<and>
         value_of (new_property k v) = Some v \<and>
         findall (update_property doc k v) ''property'' =
           findall doc ''property'' @ [new_property k v] \<and>
         length (findall (update_property doc k v) ''property'') =
           length (findall doc ''property'') + 1 \<and>
         properties_named k (update_property doc k v) = [new_property k v]"
proof -
  have c: "children (update_property doc k v) = children doc @ [new_property k v]"
    by (rule update_property_absent [OF assms])
  have f: "findall (update_property doc k v) ''property'' =
             findall doc ''property'' @ [new_property k v]"
    by (simp add: findall_def c new_property_facts)
  have l: "length (findall (update_property doc k v) ''property'') =
             length (findall doc ''property'') + 1"
    by (simp add: f)
  have n: "properties_named k (update_property doc k v) = [new_property k v]"
    using assms by (simp add: properties_named_filter c new_property_facts)
  show ?thesis
    by (intro conjI c update_property_root new_property_facts f l n)
qed

theorem upsert_appends_when_absent_witness:
  "properties_named ''k''
     (Elem ''configuration'' [] None
        [Elem ''property'' [] None
           [Elem ''name'' [] (Some ''a'') [], Elem ''value'' [] (Some ''1'') []]]) = [] \<and>
   update_property
     (Elem ''configuration'' [] None
        [Elem ''property'' [] None
           [Elem ''name'' [] (Some ''a'') [], Elem ''value'' [] (Some ''1'') []]])
     ''k'' ''v'' =
   Elem ''configuration'' [] None
     [Elem ''property'' [] None
        [Elem ''name'' [] (Some ''a'') [], Elem ''value'' [] (Some ''1'') []],
      Elem ''property'' [] None
        [Elem ''name'' [] (Some ''k'') [], Elem ''value'' [] (Some ''v'') []]]"
proof -
  let ?doc = "Elem ''configuration'' [] None
        [Elem ''property'' [] None
           [Elem ''name'' [] (Some ''a'') [], Elem ''value'' [] (Some ''1'') []]]"
  have h: "properties_named ''k'' ?doc = []"
    by (simp add: properties_named_def findall_def name_matches_def find_elem_def)
  from upsert_appends_when_absent [OF h, of "''v''"]
  have "children (update_property ?doc ''k'' ''v'') = children ?doc @ [new_property ''k'' ''v'']"
    and "tag (update_property ?doc ''k'' ''v'') = tag ?doc"
    and "attrib (update_property ?doc ''k'' ''v'') = attrib ?doc"
    and "etext (update_property ?doc ''k'' ''v'') = etext ?doc"
    by blast+
  then have "update_property ?doc ''k'' ''v'' =
     Elem ''configuration'' [] None (children ?doc @ [new_property ''k'' ''v''])"
    by (cases "update_property ?doc ''k'' ''v''") simp
  with h show ?thesis by (simp add: new_property_def)
qed




section \<open>Properties of the record extraction\<close>

lemma try_loop_map_filter:
  "try_loop body ts results = results @ List.map_filter (\<lambda>t. caught (body t)) ts"
  by (induction ts arbitrary: results) (auto simp: List.map_filter_simps caught_def split: sum.splits)

lemma first_alias_two:
  "first_alias t [a, b] =
     (if truthy (py_or (findtext t a) (findtext t b)) then py_or (findtext t a) (findtext t b)
      else None)"
  by (auto simp: truthy_def py_or_def split: option.splits list.splits)

lemma first_alias_one:
  "first_alias t [a] = (if truthy (findtext t a) then findtext t a else None)"
  by (auto simp: truthy_def split: option.splits list.splits)

lemma coerce_py_int:
  "coerce to_int (if truthy x then x else None) = caught (py_int to_int x)"
  by (auto simp: coerce_def py_int_def caught_def truthy_def split: option.splits)

lemma coerce_default_py_int:
  "coerce_default_0 to_int (if truthy x then x else None) = caught (py_int_or_0 to_int x)"
  by (auto simp: coerce_default_0_def py_int_or_0_def py_int_def caught_def truthy_def
      split: option.splits)

lemma default_py_str_or:
  "(case (if truthy x then x else None) of None \<Rightarrow> d | Some s \<Rightarrow> s) = py_str_or x d"
  by (auto simp: py_str_or_def truthy_def split: option.splits)

lemma task_attempt_entry_spec:
  "caught (task_attempt_entry to_int t) = spec_task_attempt_entry to_int t"
  unfolding spec_task_attempt_entry_def first_alias_two coerce_py_int coerce_default_py_int
    default_py_str_or task_attempt_entry_def
  by (simp add: caught_def split: sum.splits)

lemma map_entry_spec:
  "caught (map_entry to_int m) = spec_map_entry to_int m"
  unfolding spec_map_entry_def first_alias_one coerce_default_py_int
    default_py_str_or map_entry_def
  by (simp add: caught_def split: sum.splits)

text \<open>
  Claim C8, as stated: the fallback shape reads a \<^verbatim>\<open>map\<close> element with the field
  aliases of the primary shape. The source reads \<^verbatim>\<open>startTime\<close>, \<^verbatim>\<open>finishTime\<close>,
  \<^verbatim>\<open>hdfsBytesRead\<close> and \<^verbatim>\<open>trackerName\<close> only, so a \<^verbatim>\<open>map\<close> element whose fields
  are named \<^verbatim>\<open>start\<close>, \<^verbatim>\<open>finish\<close>, \<^verbatim>\<open>hdfs_bytes_read\<close> and \<^verbatim>\<open>node\<close> gives the
  record of the defaults and not the record of its fields.
\<close>

theorem map_aliases_counterexample:
  "parse_history_xml dec_int
     (Elem ''job'' [] None
        [Elem ''map'' [] None
           [Elem ''start'' [] (Some ''5'') [], Elem ''finish'' [] (Some ''9'') [],
            Elem ''hdfs_bytes_read'' [] (Some ''7'') [], Elem ''node'' [] (Some ''dn1'') []]]) =
     [(''unknown'', 0, 0, 0)] \<and>
   two_tier (spec_task_attempt_entry dec_int) (aliased_map_entry dec_int)
     (Elem ''job'' [] None
        [Elem ''map'' [] None
           [Elem ''start'' [] (Some ''5'') [], Elem ''finish'' [] (Some ''9'') [],
            Elem ''hdfs_bytes_read'' [] (Some ''7'') [], Elem ''node'' [] (Some ''dn1'') []]]) =
     [(''dn1'', 5, 9, 7)]"
  by (simp add: parse_history_xml_def two_tier_def findall_desc_def map_entry_def
      aliased_map_entry_def findtext_def find_elem_def py_int_or_0_def truthy_def py_str_or_def
      coerce_default_0_def dec_int_def digit_val_def List.map_filter_simps)

text \<open>
  Claim C8, amended. The extraction reads every \<^verbatim>\<open>taskAttempt\<close> element with the
  aliases \<^verbatim>\<open>startTime|start\<close>, \<^verbatim>\<open>finishTime|finish\<close>,
  \<^verbatim>\<open>hdfsBytesRead|hdfs_bytes_read\<close> (0 when absent) and \<^verbatim>\<open>trackerName|node\<close>
  (\<^verbatim>\<open>unknown\<close> when absent); when, and only when, that gives no record it reads every
  \<^verbatim>\<open>map\<close> element by \<^verbatim>\<open>startTime\<close>, \<^verbatim>\<open>finishTime\<close>, \<^verbatim>\<open>hdfsBytesRead\<close> (each 0
  when absent) and \<^verbatim>\<open>trackerName\<close> (\<^verbatim>\<open>unknown\<close> when absent), without aliases. In
  both loops an element that cannot be coerced adds nothing and the elements before
  and after it are read as without it. On the example the second element is skipped
  and the nested third one is found.
\<close>

theorem extraction_two_tier:
  "parse_history_xml to_int xroot =
     two_tier (spec_task_attempt_entry to_int) (spec_map_entry to_int) xroot \<and>
   try_loop (task_attempt_entry to_int) (ts @ t # ts') [] =
     try_loop (task_attempt_entry to_int) ts [] @
     (case task_attempt_entry to_int t of Inl e \<Rightarrow> [] | Inr r \<Rightarrow> [r]) @
     try_loop (task_attempt_entry to_int) ts' [] \<and>
   try_loop (map_entry to_int) (ts @ t # ts') [] =
     try_loop (map_entry to_int) ts [] @
     (case map_entry to_int t of Inl e \<Rightarrow> [] | Inr r \<Rightarrow> [r]) @
     try_loop (map_entry to_int) ts' [] \<and>
   parse_history_xml dec_int
     (Elem ''job'' [] None
        [Elem ''taskAttempt'' [] None
           [Elem ''start'' [] (Some ''5'') [], Elem ''finishTime'' [] (Some ''90'') [],
            Elem ''node'' [] (Some ''dn1'') []],
         Elem ''taskAttempt'' [] None
           [Elem ''startTime'' [] (Some ''x5'') [], Elem ''finishTime'' [] (Some ''90'') []],
         Elem ''tasks'' [] None
           [Elem ''taskAttempt'' [] None
              [Elem ''startTime'' [] (Some ''-5'') [], Elem ''finishTime'' [] (Some ''90'') [],
               Elem ''hdfsBytesRead'' [] (Some ''12'') []]],
         Elem ''map'' [] None []]) =
     [(''dn1'', 5, 90, 0), (''unknown'', -5, 90, 12)]"
proof -
  have split: "try_loop body (ts @ t # ts') [] =
     try_loop body ts [] @ (case body t of Inl e \<Rightarrow> [] | Inr r \<Rightarrow> [r]) @ try_loop body ts' []"
    for body :: "elem \<Rightarrow> py_error + entry"
    by (simp add: try_loop_map_filter List.map_filter_def caught_def split: sum.splits)
  have "parse_history_xml to_int xroot =
     two_tier (spec_task_attempt_entry to_int) (spec_map_entry to_int) xroot"
    by (simp add: parse_history_xml_def two_tier_def Let_def try_loop_map_filter
        task_attempt_entry_spec map_entry_spec)
  moreover have "parse_history_xml dec_int
     (Elem ''job'' [] None
        [Elem ''taskAttempt'' [] None
           [Elem ''start'' [] (Some ''5'') [], Elem ''finishTime'' [] (Some ''90'') [],
            Elem ''node'' [] (Some ''dn1'') []],
         Elem ''taskAttempt'' [] None
           [Elem ''startTime'' [] (Some ''x5'') [], Elem ''finishTime'' [] (Some ''90'') []],
         Elem ''tasks'' [] None
           [Elem ''taskAttempt'' [] None
              [Elem ''startTime'' [] (Some ''-5'') [], Elem ''finishTime'' [] (Some ''90'') [],
               Elem ''hdfsBytesRead'' [] (Some ''12'') []]],
         Elem ''map'' [] None []]) =
     [(''dn1'', 5, 90, 0), (''unknown'', -5, 90, 12)]"
    by (simp add: parse_history_xml_def findall_desc_def task_attempt_entry_def
        findtext_def find_elem_def py_int_or_0_def py_int_def py_or_def truthy_def py_str_or_def
        dec_int_def digit_val_def)
  ultimately show ?thesis using split by blast
qed

section \<open>Properties of the deployment sequence\<close>






text \<open>
  The function on a file is the upsert on its tree: two calls in a row, when the file
  parses and both writes succeed, leave the tree of the two upserts in the file.
\<close>

lemma update_file:
  assumes "files w path = Some doc" "write_ok w (writes w)"
  shows "update_hdfs_site_property path k v w =
           (Inr (), w\<lparr>files := (files w)(path := Some (update_property doc k v)),
                       writes := writes w + 1\<rparr>)"
  using assms by (simp add: update_hdfs_site_property_def ET_parse_def tree_write_def)

lemma update_file_twice:
  assumes "files w path = Some doc" "write_ok w (writes w)" "write_ok w (writes w + 1)"
    and "update_hdfs_site_property path k v1 w = (r1, w1)"
    and "update_hdfs_site_property path k v2 w1 = (r2, w2)"
  shows "r1 = Inr () \<and> r2 = Inr () \<and>
         files w2 path = Some (update_property (update_property doc k v1) k v2)"
proof -
  from update_file [OF assms(1,2), of k v1] assms(4)
  have w1: "r1 = Inr ()"
    "w1 = w\<lparr>files := (files w)(path := Some (update_property doc k v1)), writes := writes w + 1\<rparr>"
    by simp_all
  have f: "files w1 path = Some (update_property doc k v1)" by (simp add: w1(2))
  have o: "write_ok w1 (writes w1)" using assms(3) by (simp add: w1(2))
  from update_file [OF f o, of k v2] assms(5) w1(1) show ?thesis by auto
qed






end
